theory Spec2Isabelle
  imports Main
begin

section \<open>Data model of backend/main.go\<close>

text \<open>
  A point in time (Go's \<open>time.Time\<close>) is an integer instant; the value of
  \<open>time.Now()\<close> is handed to every function that reads the clock.
\<close>

type_synonym instant = int

text \<open>The struct \<open>Message\<close>, field by field.\<close>

record Message =
  Type :: string
  Username :: string
  Content :: string
  Room :: string
  Timestamp :: instant

text \<open>
  A buffered Go channel of messages: the buffered elements in FIFO order, the
  capacity given to \<open>make\<close>, and whether \<open>close\<close> has been called on it.
\<close>

record chan =
  chan_buf :: "Message list"
  chan_cap :: nat
  chan_closed :: bool

text \<open>
  The struct \<open>Client\<close>. The transport handle \<open>conn\<close> carries no data the hub
  reads and is left out. A \<open>*Client\<close> is an address; the channel \<open>send\<close> is
  created once per client by \<open>handleWebSocket\<close> and never shared, so its
  contents are kept inside the client object.
\<close>

record Client =
  username :: string
  room :: string
  send :: chan

type_synonym ptr = nat

text \<open>
  The state the hub works on: the map \<open>h.clients\<close> of type \<open>map[*Client]bool\<close>,
  and the memory holding the client objects the pointers refer to.
\<close>

record state =
  clients :: "ptr \<rightharpoonup> bool"
  mem :: "ptr \<rightharpoonup> Client"

text \<open>The run-time panics of Go that the hub's code can raise.\<close>

datatype error = SendOnClosedChannel | CloseOfClosedChannel | NilDereference

section \<open>Channel operations\<close>

text \<open>\<open>make(chan Message, n)\<close>.\<close>

definition make_chan :: "nat \<Rightarrow> chan" where
  "make_chan n = \<lparr>chan_buf = [], chan_cap = n, chan_closed = False\<rparr>"

text \<open>
  The non-blocking send \<open>select { case ch <- m: default: }\<close> on a buffered
  channel: a panic on a closed channel, the element appended when the buffer
  has room (\<open>Some\<close> of the new channel), the \<open>default\<close> branch (\<open>None\<close>)
  when the buffer is full. Every channel the hub sends on is made with
  capacity 256; a message handed to a receiver that is already waiting is
  here a message buffered and then received.
\<close>

definition chan_send_nb :: "Message \<Rightarrow> chan \<Rightarrow> error + chan option" where
  "chan_send_nb m ch =
     (if chan_closed ch then Inl SendOnClosedChannel
      else if length (chan_buf ch) < chan_cap ch
        then Inr (Some (ch\<lparr>chan_buf := chan_buf ch @ [m]\<rparr>))
      else Inr None)"

text \<open>\<open>close(ch)\<close>: closing a closed channel panics.\<close>

definition chan_close :: "chan \<Rightarrow> error + chan" where
  "chan_close ch =
     (if chan_closed ch then Inl CloseOfClosedChannel
      else Inr (ch\<lparr>chan_closed := True\<rparr>))"

section \<open>The hub: \<open>NewHub\<close> and the three cases of \<open>Hub.Run\<close>\<close>

text \<open>\<open>NewHub\<close>: an empty client map; the memory is whatever it was.\<close>

definition NewHub :: "(ptr \<rightharpoonup> Client) \<Rightarrow> state" where
  "NewHub m = \<lparr>clients = Map.empty, mem = m\<rparr>"

text \<open>
  \<open>case client := <-h.register\<close>: the map entry is set to \<open>true\<close>; the log
  line reads \<open>client.username\<close> and \<open>client.room\<close>, which needs the pointer to
  refer to an object.
\<close>

definition register :: "ptr \<Rightarrow> state \<Rightarrow> error + state" where
  "register c s =
     (case mem s c of
        None \<Rightarrow> Inl NilDereference
      | Some cl \<Rightarrow> Inr (s\<lparr>clients := (clients s)(c \<mapsto> True)\<rparr>))"

text \<open>
  \<open>case client := <-h.unregister\<close>: only when the client is a key of the map,
  the key is deleted and the client's channel is closed.
\<close>

definition unregister :: "ptr \<Rightarrow> state \<Rightarrow> error + state" where
  "unregister c s =
     (case clients s c of
        None \<Rightarrow> Inr s
      | Some b \<Rightarrow>
          (case mem s c of
             None \<Rightarrow> Inl NilDereference
           | Some cl \<Rightarrow>
               (case chan_close (send cl) of
                  Inl e \<Rightarrow> Inl e
                | Inr ch \<Rightarrow>
                    Inr (s\<lparr>clients := (clients s)(c := None),
                           mem := (mem s)(c \<mapsto> cl\<lparr>send := ch\<rparr>)\<rparr>))))"

text \<open>
  The body of the loop \<open>for client := range h.clients\<close> for one client. Go's
  \<open>range\<close> does not produce a key that was deleted before it was reached,
  hence the first test. For a client of the message's room the non-blocking
  send is tried; in the \<open>default\<close> branch the channel is closed and the key
  deleted.
\<close>

definition broadcast_client :: "Message \<Rightarrow> ptr \<Rightarrow> state \<Rightarrow> error + state" where
  "broadcast_client m c s =
     (case clients s c of
        None \<Rightarrow> Inr s
      | Some b \<Rightarrow>
          (case mem s c of
             None \<Rightarrow> Inl NilDereference
           | Some cl \<Rightarrow>
               if room cl = Room m then
                 (case chan_send_nb m (send cl) of
                    Inl e \<Rightarrow> Inl e
                  | Inr (Some ch) \<Rightarrow> Inr (s\<lparr>mem := (mem s)(c \<mapsto> cl\<lparr>send := ch\<rparr>)\<rparr>)
                  | Inr None \<Rightarrow>
                      (case chan_close (send cl) of
                         Inl e \<Rightarrow> Inl e
                       | Inr ch \<Rightarrow>
                           Inr (s\<lparr>mem := (mem s)(c \<mapsto> cl\<lparr>send := ch\<rparr>),
                                  clients := (clients s)(c := None)\<rparr>)))
               else Inr s))"

text \<open>
  \<open>case message := <-h.broadcast\<close>. Go leaves the iteration order of a map
  unspecified, so the order in which \<open>range\<close> visits the keys is an argument:
  any list that enumerates the keys of the map once (\<open>range_order\<close>).
\<close>

fun broadcast :: "Message \<Rightarrow> ptr list \<Rightarrow> state \<Rightarrow> error + state" where
  "broadcast m [] s = Inr s"
| "broadcast m (c # cs) s =
     (case broadcast_client m c s of
        Inl e \<Rightarrow> Inl e
      | Inr s' \<Rightarrow> broadcast m cs s')"

definition range_order :: "ptr list \<Rightarrow> state \<Rightarrow> bool" where
  "range_order ks s \<longleftrightarrow> distinct ks \<and> set ks = dom (clients s)"

text \<open>
  One iteration of the \<open>select\<close> loop of \<open>Hub.Run\<close>: the request received on
  one of the three channels is handled to its end before the next is taken.
  The list is the order in which \<open>range\<close> visits the map, used by the
  broadcast case only.
\<close>

datatype request = Register ptr | Unregister ptr | Broadcast Message

fun Run_step :: "request \<Rightarrow> ptr list \<Rightarrow> state \<Rightarrow> error + state" where
  "Run_step (Register c) ks s = register c s"
| "Run_step (Unregister c) ks s = unregister c s"
| "Run_step (Broadcast m) ks s = broadcast m ks s"

text \<open>
  The hub handling a sequence of requests, each with the order its \<open>range\<close>
  loop takes. A panic ends the run.
\<close>

fun Run :: "(request \<times> ptr list) list \<Rightarrow> state \<Rightarrow> error + state" where
  "Run [] s = Inr s"
| "Run ((r, ks) # rs) s =
     (case Run_step r ks s of
        Inl e \<Rightarrow> Inl e
      | Inr s' \<Rightarrow> Run rs s')"

section \<open>The pumps of a client\<close>

text \<open>
  What \<open>c.conn.ReadMessage()\<close> returns: a frame with its payload, or an
  error (a closed or failed transport, an expired read deadline).
\<close>

datatype read_result = Frame string | ReadError

text \<open>
  \<open>Client.readPump\<close> on the results of its successive reads, each paired with
  the value \<open>time.Now()\<close> has when the frame is handled. The result is the
  list of requests the pump sends to the hub, in order, and whether the pump
  has returned (\<open>False\<close>: it is blocked in the next read). \<open>json.Unmarshal\<close>
  belongs to the standard library and is an argument: \<open>None\<close> when it
  returns an error, the decoded message otherwise. The deferred function
  sends the unregister request when the loop is left.
\<close>

fun readPump ::
  "(string \<Rightarrow> Message option) \<Rightarrow> ptr \<Rightarrow> Client \<Rightarrow> (read_result \<times> instant) list
     \<Rightarrow> request list \<times> bool" where
  "readPump unmarshal p c [] = ([], False)"
| "readPump unmarshal p c ((ReadError, now) # rest) = ([Unregister p], True)"
| "readPump unmarshal p c ((Frame messageData, now) # rest) =
     (case unmarshal messageData of
        None \<Rightarrow> readPump unmarshal p c rest
      | Some msg \<Rightarrow>
          (Broadcast (msg\<lparr>Username := username c, Room := room c, Timestamp := now\<rparr>)
             # fst (readPump unmarshal p c rest),
           snd (readPump unmarshal p c rest)))"

text \<open>
  The receive \<open>message, ok := <-c.send\<close> of \<open>Client.writePump\<close>: the oldest
  buffered message with \<open>ok = true\<close>; on an empty closed channel the zero
  value with \<open>ok = false\<close> (here \<open>None\<close>); on an empty open channel the
  receive blocks (the outer \<open>None\<close>).
\<close>

definition chan_recv :: "chan \<Rightarrow> (Message option \<times> chan) option" where
  "chan_recv ch =
     (case chan_buf ch of
        m # ms \<Rightarrow> Some (Some m, ch\<lparr>chan_buf := ms\<rparr>)
      | [] \<Rightarrow> if chan_closed ch then Some (None, ch) else None)"

text \<open>The effect of that receive on the state, for the client at \<open>p\<close>.\<close>

definition writePump_recv :: "ptr \<Rightarrow> state \<Rightarrow> state" where
  "writePump_recv p s =
     (case mem s p of
        None \<Rightarrow> s
      | Some cl \<Rightarrow>
          (case chan_recv (send cl) of
             None \<Rightarrow> s
           | Some (msg, ch) \<Rightarrow> s\<lparr>mem := (mem s)(p \<mapsto> cl\<lparr>send := ch\<rparr>)\<rparr>))"

section \<open>\<open>handleWebSocket\<close>\<close>

text \<open>
  The arguments are the values \<open>r.URL.Query().Get\<close> returns for \<open>username\<close>
  and \<open>room\<close> (the empty string for a missing parameter), whether
  \<open>upgrader.Upgrade\<close> succeeded, the address \<open>p\<close> of the new \<open>Client\<close>
  object, and the clock. The result is the state with the new object in
  memory and the requests sent to the hub, in order. After a failed upgrade
  nothing is created and nothing is sent. The two pumps are started after
  the join message has been handed to the hub.
\<close>

definition handleWebSocket ::
  "string \<Rightarrow> string \<Rightarrow> bool \<Rightarrow> ptr \<Rightarrow> instant \<Rightarrow> state \<Rightarrow> state \<times> request list" where
  "handleWebSocket uq rq upgraded p now s =
     (let u = (if uq = [] then ''Anonymous'' else uq);
          r = (if rq = [] then ''general'' else rq)
      in if \<not> upgraded then (s, [])
         else (s\<lparr>mem := (mem s)(p \<mapsto> \<lparr>username = u, room = r, send = make_chan 256\<rparr>)\<rparr>,
               [Register p,
                Broadcast \<lparr>Type = ''join'', Username = u,
                           Content = u @ '' joined the room'', Room = r,
                           Timestamp = now\<rparr>]))"

section \<open>Well-formed states and executions\<close>

text \<open>
  Every key of the client map refers to a client object whose channel is open.
\<close>

definition hub_inv :: "state \<Rightarrow> bool" where
  "hub_inv s \<longleftrightarrow>
     (\<forall>c. clients s c \<noteq> None \<longrightarrow> (\<exists>cl. mem s c = Some cl \<and> \<not> chan_closed (send cl)))"

text \<open>
  The steps that change the state while the program runs: a connection is
  accepted (\<open>handleWebSocket\<close> creates the client at an unused address and the
  hub registers it), the hub handles an unregister request, the hub handles a
  broadcast in some order of the map, a write pump receives from its channel.
\<close>

inductive hub_op :: "state \<Rightarrow> state \<Rightarrow> bool" where
  op_register:
    "mem s p = None \<Longrightarrow> register p (fst (handleWebSocket uq rq True p now s)) = Inr s'
       \<Longrightarrow> hub_op s s'"
| op_unregister:
    "unregister c s = Inr s' \<Longrightarrow> hub_op s s'"
| op_broadcast:
    "range_order ks s \<Longrightarrow> broadcast m ks s = Inr s' \<Longrightarrow> hub_op s s'"
| op_recv:
    "hub_op s (writePump_recv p s)"

text \<open>Whether the channel of the connection at \<open>c\<close> has been closed.\<close>

definition is_closed :: "state \<Rightarrow> ptr \<Rightarrow> bool" where
  "is_closed s c = (case mem s c of None \<Rightarrow> False | Some cl \<Rightarrow> chan_closed (send cl))"

text \<open>
  The executions of the program, as the list of the states it went through,
  the latest first: it starts with an empty hub and no client object.
\<close>

inductive execution :: "state list \<Rightarrow> bool" where
  exec_init: "execution [NewHub Map.empty]"
| exec_step: "execution (s # tr) \<Longrightarrow> hub_op s s' \<Longrightarrow> execution (s' # s # tr)"

text \<open>
  The number of steps of an execution in which the channel of \<open>c\<close> goes from
  open to closed. A \<open>close\<close> of a closed channel is a panic and ends the
  program, so this is the number of times \<open>close(client.send)\<close> ran for \<open>c\<close>.
\<close>

fun close_count :: "ptr \<Rightarrow> state list \<Rightarrow> nat" where
  "close_count c (s' # s # tr) =
     (if \<not> is_closed s c \<and> is_closed s' c then 1 else 0) + close_count c (s # tr)"
| "close_count c tr = 0"

section \<open>Example values\<close>

text \<open>
  A chat message, and three connections: Bob and Erin in room \<open>general\<close>,
  Dave in room \<open>random\<close>. Erin's consumer has stalled: her queue holds 256
  messages, the capacity \<open>handleWebSocket\<close> gives every queue.
\<close>

definition hello :: Message where
  "hello = \<lparr>Type = ''message'', Username = ''Bob'', Content = ''hi'',
             Room = ''general'', Timestamp = 0\<rparr>"

definition bob :: Client where
  "bob = \<lparr>username = ''Bob'', room = ''general'', send = make_chan 256\<rparr>"

definition dave :: Client where
  "dave = \<lparr>username = ''Dave'', room = ''random'', send = make_chan 256\<rparr>"

definition erin :: Client where
  "erin = \<lparr>username = ''Erin'', room = ''general'',
            send = (make_chan 256)\<lparr>chan_buf := replicate 256 hello\<rparr>\<rparr>"

definition ex_state :: state where
  "ex_state = \<lparr>clients = [0 \<mapsto> True, 1 \<mapsto> True, 2 \<mapsto> True],
               mem = [0 \<mapsto> bob, 1 \<mapsto> dave, 2 \<mapsto> erin]\<rparr>"

text \<open>
  A stand-in for \<open>json.Unmarshal\<close> on three payloads: one whose fields claim
  another identity, one that leaves the identity fields empty, and one that
  does not decode.
\<close>

definition ex_unmarshal :: "string \<Rightarrow> Message option" where
  "ex_unmarshal d =
     (if d = ''forged'' then
        Some \<lparr>Type = ''join'', Username = ''Admin'', Content = ''hi'', Room = ''random'',
              Timestamp = 42\<rparr>
      else if d = ''plain'' then
        Some \<lparr>Type = ''join'', Username = [], Content = ''hi'', Room = [], Timestamp = 0\<rparr>
      else None)"

text \<open>
  Alice joins room \<open>general\<close> at the unused address 3: her join message, the
  state once her client object exists, and the state after the hub has
  registered her and broadcast the join message.
\<close>

definition join_alice :: Message where
  "join_alice = \<lparr>Type = ''join'', Username = ''Alice'', Content = ''Alice joined the room'',
                  Room = ''general'', Timestamp = 0\<rparr>"

definition ex_accepted :: state where
  "ex_accepted =
     \<lparr>clients = [0 \<mapsto> True, 1 \<mapsto> True, 2 \<mapsto> True],
      mem = [0 \<mapsto> bob, 1 \<mapsto> dave, 2 \<mapsto> erin,
             3 \<mapsto> \<lparr>username = ''Alice'', room = ''general'', send = make_chan 256\<rparr>]\<rparr>"

definition ex_joined :: state where
  "ex_joined =
     \<lparr>clients = [0 \<mapsto> True, 1 \<mapsto> True, 3 \<mapsto> True],
      mem = [0 \<mapsto> bob\<lparr>send := (make_chan 256)\<lparr>chan_buf := [join_alice]\<rparr>\<rparr>,
             1 \<mapsto> dave,
             2 \<mapsto> erin\<lparr>send := (send erin)\<lparr>chan_closed := True\<rparr>\<rparr>,
             3 \<mapsto> \<lparr>username = ''Alice'', room = ''general'',
                   send = (make_chan 256)\<lparr>chan_buf := [join_alice]\<rparr>\<rparr>]\<rparr>"

text \<open>
  Alice joins room \<open>general\<close> at the unused address 3 while only Bob is
  connected: the state with Bob alone; the state in which Alice is registered
  too and her queue holds \<open>n\<close> messages that nothing has received, her pumps
  not having started; and the state after the join broadcast has found her
  queue full.
\<close>

definition ex_bob :: state where
  "ex_bob = \<lparr>clients = [0 \<mapsto> True], mem = [0 \<mapsto> bob]\<rparr>"

definition ex_between :: "nat \<Rightarrow> state" where
  "ex_between n =
     \<lparr>clients = [0 \<mapsto> True, 3 \<mapsto> True],
      mem = [0 \<mapsto> bob,
             3 \<mapsto> \<lparr>username = ''Alice'', room = ''general'',
                   send = (make_chan 256)\<lparr>chan_buf := replicate n hello\<rparr>\<rparr>]\<rparr>"

definition ex_lost :: state where
  "ex_lost =
     \<lparr>clients = [0 \<mapsto> True],
      mem = [0 \<mapsto> bob\<lparr>send := (make_chan 256)\<lparr>chan_buf := [join_alice]\<rparr>\<rparr>,
             3 \<mapsto> \<lparr>username = ''Alice'', room = ''general'',
                   send = (make_chan 256)\<lparr>chan_buf := replicate 256 hello,
                                            chan_closed := True\<rparr>\<rparr>]\<rparr>"

section \<open>The loop body of a broadcast\<close>

lemma broadcast_client_frame:
  "broadcast_client m c s = Inr s' \<Longrightarrow> d \<noteq> c \<Longrightarrow> clients s' d = clients s d \<and> mem s' d = mem s d"
  by (auto simp: broadcast_client_def chan_send_nb_def chan_close_def
           split: option.splits if_splits sum.splits)

lemma broadcast_client_total:
  "hub_inv s \<Longrightarrow> \<exists>s'. broadcast_client m c s = Inr s'"
  by (auto simp: broadcast_client_def chan_send_nb_def chan_close_def hub_inv_def
           split: option.splits if_splits sum.splits)

lemma broadcast_client_inv:
  "hub_inv s \<Longrightarrow> broadcast_client m c s = Inr s' \<Longrightarrow> hub_inv s'"
  by (auto simp: broadcast_client_def chan_send_nb_def chan_close_def hub_inv_def
           split: option.splits if_splits sum.splits)

lemma broadcast_client_absent:
  "clients s c = None \<Longrightarrow> broadcast_client m c s = Inr s"
  by (simp add: broadcast_client_def)

lemma broadcast_client_other_room:
  "mem s c = Some cl \<Longrightarrow> room cl \<noteq> Room m \<Longrightarrow> broadcast_client m c s = Inr s"
  by (simp add: broadcast_client_def split: option.splits)

lemma broadcast_client_sent:
  "clients s c \<noteq> None \<Longrightarrow> mem s c = Some cl \<Longrightarrow> room cl = Room m \<Longrightarrow>
   \<not> chan_closed (send cl) \<Longrightarrow> length (chan_buf (send cl)) < chan_cap (send cl) \<Longrightarrow>
   broadcast_client m c s =
     Inr (s\<lparr>mem := (mem s)(c \<mapsto> cl\<lparr>send := (send cl)\<lparr>chan_buf := chan_buf (send cl) @ [m]\<rparr>\<rparr>)\<rparr>)"
  by (auto simp: broadcast_client_def chan_send_nb_def split: option.splits)

lemma broadcast_client_full:
  "clients s c \<noteq> None \<Longrightarrow> mem s c = Some cl \<Longrightarrow> room cl = Room m \<Longrightarrow>
   \<not> chan_closed (send cl) \<Longrightarrow> \<not> length (chan_buf (send cl)) < chan_cap (send cl) \<Longrightarrow>
   broadcast_client m c s =
     Inr (s\<lparr>mem := (mem s)(c \<mapsto> cl\<lparr>send := (send cl)\<lparr>chan_closed := True\<rparr>\<rparr>),
            clients := (clients s)(c := None)\<rparr>)"
  by (auto simp: broadcast_client_def chan_send_nb_def chan_close_def split: option.splits)

lemma broadcast_client_local:
  "clients s1 c = clients s c \<Longrightarrow> mem s1 c = mem s c \<Longrightarrow> broadcast_client m c s1 = Inr t1 \<Longrightarrow>
   \<exists>t. broadcast_client m c s = Inr t \<and> clients t c = clients t1 c \<and> mem t c = mem t1 c"
  by (auto simp: broadcast_client_def chan_send_nb_def chan_close_def
           split: option.splits if_splits sum.splits)

section \<open>The broadcast loop\<close>

lemma broadcast_total:
  "hub_inv s \<Longrightarrow> \<exists>s'. broadcast m ks s = Inr s' \<and> hub_inv s'"
proof (induction ks arbitrary: s)
  case Nil
  then show ?case by simp
next
  case (Cons k ks)
  from Cons.prems obtain s1 where s1: "broadcast_client m k s = Inr s1"
    using broadcast_client_total by blast
  with Cons.prems have "hub_inv s1" by (rule broadcast_client_inv)
  from Cons.IH [OF this] s1 show ?case by simp
qed

lemma broadcast_frame:
  "broadcast m ks s = Inr s' \<Longrightarrow> c \<notin> set ks \<Longrightarrow> clients s' c = clients s c \<and> mem s' c = mem s c"
proof (induction ks arbitrary: s)
  case Nil
  then show ?case by simp
next
  case (Cons k ks)
  from Cons.prems(1) obtain s1 where s1: "broadcast_client m k s = Inr s1"
    and rest: "broadcast m ks s1 = Inr s'"
    by (auto split: sum.splits)
  from Cons.prems(2) have "c \<noteq> k" "c \<notin> set ks" by auto
  with Cons.IH [OF rest] broadcast_client_frame [OF s1] show ?case by simp
qed

lemma broadcast_at:
  "distinct ks \<Longrightarrow> c \<in> set ks \<Longrightarrow> broadcast m ks s = Inr s' \<Longrightarrow>
   \<exists>t. broadcast_client m c s = Inr t \<and> clients s' c = clients t c \<and> mem s' c = mem t c"
proof (induction ks arbitrary: s)
  case Nil
  then show ?case by simp
next
  case (Cons k ks)
  from Cons.prems(3) obtain s1 where s1: "broadcast_client m k s = Inr s1"
    and rest: "broadcast m ks s1 = Inr s'"
    by (auto split: sum.splits)
  show ?case
  proof (cases "c = k")
    case True
    with Cons.prems(1) have "c \<notin> set ks" by simp
    from broadcast_frame [OF rest this] s1 True show ?thesis by simp
  next
    case False
    with Cons.prems have d: "distinct ks" and c: "c \<in> set ks" by auto
    from Cons.IH [OF d c rest] obtain t1 where
      t1: "broadcast_client m c s1 = Inr t1" "clients s' c = clients t1 c" "mem s' c = mem t1 c"
      by blast
    from broadcast_client_frame [OF s1 False]
    have "clients s1 c = clients s c" "mem s1 c = mem s c" by simp_all
    from broadcast_client_local [OF this t1(1)] t1(2,3) show ?thesis by auto
  qed
qed

lemma broadcast_member_sent:
  assumes "hub_inv s" and "range_order ks s" and "broadcast m ks s = Inr s'"
    and "clients s c \<noteq> None" and "mem s c = Some cl" and "room cl = Room m"
    and "length (chan_buf (send cl)) < chan_cap (send cl)"
  shows "clients s' c = clients s c \<and>
         mem s' c = Some (cl\<lparr>send := (send cl)\<lparr>chan_buf := chan_buf (send cl) @ [m]\<rparr>\<rparr>)"
proof -
  from assms(2) have d: "distinct ks" and ks: "set ks = dom (clients s)"
    by (simp_all add: range_order_def)
  from assms(4) ks have "c \<in> set ks" by auto
  from broadcast_at [OF d this assms(3)] obtain t where
    t: "broadcast_client m c s = Inr t" "clients s' c = clients t c" "mem s' c = mem t c"
    by blast
  from assms(1,4,5) have op: "\<not> chan_closed (send cl)"
    by (auto simp: hub_inv_def)
  from broadcast_client_sent [OF assms(4,5,6) op assms(7)] t show ?thesis by simp
qed

section \<open>The example state is well formed\<close>

lemma hub_inv_ex_state: "hub_inv ex_state"
  by (simp add: hub_inv_def ex_state_def bob_def dave_def erin_def make_chan_def)

lemma range_order_ex_state: "range_order [2, 0, 1] ex_state"
  by (auto simp: range_order_def ex_state_def)

section \<open>Room-scoped delivery\<close>

text \<open>
  Claim C1. In a well-formed state, a broadcast of a message \<open>m\<close> in any order
  of the map returns, and afterwards: every registered connection of room
  \<open>Room m\<close> that is still a key of the map has \<open>m\<close> appended to its queue;
  a connection of another room has its queue and its membership unchanged; a
  connection that was not registered is untouched.
\<close>

theorem broadcast_room_scoped:
  assumes "hub_inv s" and "range_order ks s"
  shows "\<exists>s'. broadcast m ks s = Inr s' \<and>
     (\<forall>c cl. clients s c \<noteq> None \<and> mem s c = Some cl \<and> room cl = Room m \<and> clients s' c \<noteq> None \<longrightarrow>
        mem s' c = Some (cl\<lparr>send := (send cl)\<lparr>chan_buf := chan_buf (send cl) @ [m]\<rparr>\<rparr>)) \<and>
     (\<forall>c cl. mem s c = Some cl \<and> room cl \<noteq> Room m \<longrightarrow>
        mem s' c = mem s c \<and> clients s' c = clients s c) \<and>
     (\<forall>c. clients s c = None \<longrightarrow> mem s' c = mem s c \<and> clients s' c = None)"
proof -
  from assms(1) obtain s' where s': "broadcast m ks s = Inr s'"
    using broadcast_total by blast
  from assms(2) have d: "distinct ks" and ks: "set ks = dom (clients s)"
    by (simp_all add: range_order_def)
  have at: "\<exists>t. broadcast_client m c s = Inr t \<and> clients s' c = clients t c \<and> mem s' c = mem t c"
    if "clients s c \<noteq> None" for c
  proof -
    from that ks have "c \<in> set ks" by auto
    from broadcast_at [OF d this s'] show ?thesis .
  qed
  have same: "mem s' c = Some (cl\<lparr>send := (send cl)\<lparr>chan_buf := chan_buf (send cl) @ [m]\<rparr>\<rparr>)"
    if c: "clients s c \<noteq> None" "mem s c = Some cl" "room cl = Room m" "clients s' c \<noteq> None"
    for c cl
  proof -
    from at [OF c(1)] obtain t where
      t: "broadcast_client m c s = Inr t" "clients s' c = clients t c" "mem s' c = mem t c"
      by blast
    from assms(1) c(1,2) have op: "\<not> chan_closed (send cl)"
      by (auto simp: hub_inv_def)
    show ?thesis
    proof (cases "length (chan_buf (send cl)) < chan_cap (send cl)")
      case True
      from broadcast_client_sent [OF c(1,2,3) op True] t show ?thesis by simp
    next
      case False
      from broadcast_client_full [OF c(1,2,3) op False] t c(4) show ?thesis by simp
    qed
  qed
  have other: "mem s' c = mem s c \<and> clients s' c = clients s c"
    if c: "mem s c = Some cl" "room cl \<noteq> Room m" for c cl
  proof (cases "clients s c")
    case None
    with ks have "c \<notin> set ks" by auto
    from broadcast_frame [OF s' this] show ?thesis by simp
  next
    case (Some b)
    then have "clients s c \<noteq> None" by simp
    from at [OF this] broadcast_client_other_room [OF c] show ?thesis by auto
  qed
  have absent: "mem s' c = mem s c \<and> clients s' c = None" if c: "clients s c = None" for c
  proof -
    from c ks have "c \<notin> set ks" by auto
    from broadcast_frame [OF s' this] c show ?thesis by simp
  qed
  from s' same other absent show ?thesis by blast
qed

theorem broadcast_room_scoped_witness:
  "hub_inv ex_state \<and> range_order [2, 0, 1] ex_state \<and>
   (\<exists>s'. broadcast hello [2, 0, 1] ex_state = Inr s' \<and>
      mem s' 0 = Some (bob\<lparr>send := (make_chan 256)\<lparr>chan_buf := [hello]\<rparr>\<rparr>) \<and>
      mem s' 1 = Some dave)"
proof -
  from broadcast_room_scoped [OF hub_inv_ex_state range_order_ex_state, of hello]
  obtain s' where s': "broadcast hello [2, 0, 1] ex_state = Inr s'"
    and same: "\<And>c cl. clients ex_state c \<noteq> None \<Longrightarrow> mem ex_state c = Some cl \<Longrightarrow>
        room cl = Room hello \<Longrightarrow> clients s' c \<noteq> None \<Longrightarrow>
        mem s' c = Some (cl\<lparr>send := (send cl)\<lparr>chan_buf := chan_buf (send cl) @ [hello]\<rparr>\<rparr>)"
    and other: "\<And>c cl. mem ex_state c = Some cl \<Longrightarrow> room cl \<noteq> Room hello \<Longrightarrow>
        mem s' c = mem ex_state c \<and> clients s' c = clients ex_state c"
    by blast
  have "mem s' 1 = Some dave"
    using other [of 1 dave] by (simp add: ex_state_def dave_def hello_def)
  moreover have "clients s' 0 \<noteq> None"
    using s' by (auto simp: ex_state_def broadcast_client_def chan_send_nb_def chan_close_def
        bob_def dave_def erin_def make_chan_def hello_def)
  then have "mem s' 0 = Some (bob\<lparr>send := (make_chan 256)\<lparr>chan_buf := [hello]\<rparr>\<rparr>)"
    using same [of 0 bob] by (simp add: ex_state_def bob_def hello_def make_chan_def)
  ultimately show ?thesis
    using s' hub_inv_ex_state range_order_ex_state by blast
qed

section \<open>Eviction of a connection whose queue is full\<close>

text \<open>
  Claim C2. In a well-formed state, let a registered connection of the
  message's room have a full queue. The broadcast returns (it neither blocks
  nor retries), the connection's channel, open before, is closed, its buffer
  is untouched, and the connection is no longer a key of the map. A close of a
  closed channel would be the panic \<open>CloseOfClosedChannel\<close>, so the close took
  place once. Every later broadcast, in any order of the map that results,
  does not visit the connection and leaves its object as it is.
\<close>

theorem broadcast_evicts_full:
  assumes "hub_inv s" and "range_order ks s"
    and "clients s c \<noteq> None" and "mem s c = Some cl" and "room cl = Room m"
    and "chan_cap (send cl) \<le> length (chan_buf (send cl))"
  shows "\<exists>s'. broadcast m ks s = Inr s' \<and> clients s' c = None \<and>
           \<not> chan_closed (send cl) \<and>
           mem s' c = Some (cl\<lparr>send := (send cl)\<lparr>chan_closed := True\<rparr>\<rparr>) \<and>
           (\<forall>m2 ks2. range_order ks2 s' \<longrightarrow>
              c \<notin> set ks2 \<and>
              (\<exists>s''. broadcast m2 ks2 s' = Inr s'' \<and> clients s'' c = None \<and> mem s'' c = mem s' c))"
proof -
  from assms(1) obtain s' where s': "broadcast m ks s = Inr s'" and inv': "hub_inv s'"
    using broadcast_total by blast
  from assms(2) have d: "distinct ks" and ks: "set ks = dom (clients s)"
    by (simp_all add: range_order_def)
  from assms(3) ks have "c \<in> set ks" by auto
  from broadcast_at [OF d this s'] obtain t where
    t: "broadcast_client m c s = Inr t" "clients s' c = clients t c" "mem s' c = mem t c"
    by blast
  from assms(1,3,4) have op: "\<not> chan_closed (send cl)"
    by (auto simp: hub_inv_def)
  from assms(6) have full: "\<not> length (chan_buf (send cl)) < chan_cap (send cl)" by simp
  from broadcast_client_full [OF assms(3,4,5) op full] t
  have gone: "clients s' c = None"
    and closed: "mem s' c = Some (cl\<lparr>send := (send cl)\<lparr>chan_closed := True\<rparr>\<rparr>)"
    by simp_all
  have later: "c \<notin> set ks2 \<and>
      (\<exists>s''. broadcast m2 ks2 s' = Inr s'' \<and> clients s'' c = None \<and> mem s'' c = mem s' c)"
    if r: "range_order ks2 s'" for m2 ks2
  proof -
    from r gone have notin: "c \<notin> set ks2" by (auto simp: range_order_def)
    from inv' obtain s'' where s'': "broadcast m2 ks2 s' = Inr s''"
      using broadcast_total by blast
    from broadcast_frame [OF s'' notin] gone s'' notin show ?thesis by simp
  qed
  from s' gone op closed later show ?thesis by blast
qed

theorem broadcast_evicts_full_witness:
  "hub_inv ex_state \<and> range_order [2, 0, 1] ex_state \<and>
   clients ex_state 2 = Some True \<and> mem ex_state 2 = Some erin \<and> room erin = Room hello \<and>
   chan_cap (send erin) \<le> length (chan_buf (send erin)) \<and>
   (\<exists>s'. broadcast hello [2, 0, 1] ex_state = Inr s' \<and> clients s' 2 = None \<and>
      mem s' 2 = Some (erin\<lparr>send := (send erin)\<lparr>chan_closed := True\<rparr>\<rparr>) \<and>
      range_order [0, 1] s' \<and>
      (\<exists>s''. broadcast hello [0, 1] s' = Inr s'' \<and> clients s'' 2 = None \<and> mem s'' 2 = mem s' 2))"
proof -
  have a: "clients ex_state 2 \<noteq> None" "mem ex_state 2 = Some erin" "room erin = Room hello"
    "chan_cap (send erin) \<le> length (chan_buf (send erin))"
    by (simp_all add: ex_state_def erin_def hello_def make_chan_def)
  from broadcast_evicts_full [OF hub_inv_ex_state range_order_ex_state a]
  obtain s' where s': "broadcast hello [2, 0, 1] ex_state = Inr s'" "clients s' 2 = None"
      "mem s' 2 = Some (erin\<lparr>send := (send erin)\<lparr>chan_closed := True\<rparr>\<rparr>)"
    and later: "\<And>m2 ks2. range_order ks2 s' \<Longrightarrow>
        (\<exists>s''. broadcast m2 ks2 s' = Inr s'' \<and> clients s'' 2 = None \<and> mem s'' 2 = mem s' 2)"
    by blast
  have r: "range_order [0, 1] s'"
    using s'(1) by (auto simp: range_order_def ex_state_def broadcast_client_def chan_send_nb_def
        chan_close_def bob_def dave_def erin_def make_chan_def hello_def split: if_splits)
  from later [OF r, of hello] s' r a hub_inv_ex_state range_order_ex_state
  show ?thesis by (simp add: ex_state_def)
qed

section \<open>Unregistering\<close>

lemma unregister_absent: "clients s c = None \<Longrightarrow> unregister c s = Inr s"
  by (simp add: unregister_def)

lemma unregister_removes: "unregister c s = Inr s' \<Longrightarrow> clients s' c = None"
  by (auto simp: unregister_def split: option.splits sum.splits)

lemma unregister_total: "hub_inv s \<Longrightarrow> \<exists>s'. unregister c s = Inr s' \<and> hub_inv s'"
  by (auto simp: unregister_def chan_close_def hub_inv_def split: option.splits)

text \<open>
  Claim C4. The hub handling two unregister requests for a connection gives
  what handling one gives, in every state. In a well-formed state the request
  raises no panic; after it the connection is not a key of the map and a
  second request returns the state as it is; a request for a connection that
  is not a key returns the state as it is, closing nothing.
\<close>

theorem unregister_idempotent:
  "Run [(Unregister c, ks1), (Unregister c, ks2)] s = Run [(Unregister c, ks1)] s \<and>
   (hub_inv s \<longrightarrow> (\<exists>s'. unregister c s = Inr s')) \<and>
   (\<forall>s'. unregister c s = Inr s' \<longrightarrow> clients s' c = None \<and> unregister c s' = Inr s') \<and>
   (clients s c = None \<longrightarrow> unregister c s = Inr s)"
proof -
  have twice: "clients s' c = None \<and> unregister c s' = Inr s'" if "unregister c s = Inr s'" for s'
    using unregister_removes [OF that] by (simp add: unregister_absent)
  then have "Run [(Unregister c, ks1), (Unregister c, ks2)] s = Run [(Unregister c, ks1)] s"
    by (cases "unregister c s") simp_all
  with twice unregister_total [of s c] unregister_absent [of s c] show ?thesis by blast
qed

theorem unregister_idempotent_witness:
  "hub_inv ex_state \<and>
   (\<exists>s'. unregister 0 ex_state = Inr s' \<and> clients s' 0 = None \<and> unregister 0 s' = Inr s' \<and>
      Run [(Unregister 0, []), (Unregister 0, [])] ex_state = Inr s')"
proof -
  from unregister_idempotent [of 0 "[]" "[]" ex_state] hub_inv_ex_state
  obtain s' where s': "unregister 0 ex_state = Inr s'" by blast
  with unregister_idempotent [of 0 "[]" "[]" ex_state]
  have "clients s' 0 = None \<and> unregister 0 s' = Inr s' \<and>
      Run [(Unregister 0, []), (Unregister 0, [])] ex_state = Inr s'"
    by simp
  with s' hub_inv_ex_state show ?thesis by blast
qed

section \<open>The inbound pump\<close>

text \<open>
  Claim C3. For a frame that decodes, the pump submits the decoded message
  with the connection's username and room and the clock's value. Two payloads
  whose decoded messages agree on type and content, whatever their username,
  room and timestamp fields, give the same broadcast message up to the
  timestamp.
\<close>

theorem readPump_stamps_identity:
  assumes "unmarshal d1 = Some m1" and "unmarshal d2 = Some m2"
    and "Type m1 = Type m2" and "Content m1 = Content m2"
  shows "\<exists>b1 b2.
     readPump unmarshal p c ((Frame d1, t1) # rest) =
       (Broadcast b1 # fst (readPump unmarshal p c rest), snd (readPump unmarshal p c rest)) \<and>
     readPump unmarshal p c ((Frame d2, t2) # rest) =
       (Broadcast b2 # fst (readPump unmarshal p c rest), snd (readPump unmarshal p c rest)) \<and>
     Username b1 = username c \<and> Room b1 = room c \<and> Timestamp b1 = t1 \<and>
     Username b2 = username c \<and> Room b2 = room c \<and> Timestamp b2 = t2 \<and>
     b2 = b1\<lparr>Timestamp := t2\<rparr>"
  using assms by simp

theorem readPump_stamps_identity_witness:
  "ex_unmarshal ''forged'' = Some \<lparr>Type = ''join'', Username = ''Admin'', Content = ''hi'',
      Room = ''random'', Timestamp = 42\<rparr> \<and>
   ex_unmarshal ''plain'' = Some \<lparr>Type = ''join'', Username = [], Content = ''hi'',
      Room = [], Timestamp = 0\<rparr> \<and>
   (\<exists>b1 b2.
     readPump ex_unmarshal 0 bob [(Frame ''forged'', 7)] = ([Broadcast b1], False) \<and>
     readPump ex_unmarshal 0 bob [(Frame ''plain'', 9)] = ([Broadcast b2], False) \<and>
     Username b1 = ''Bob'' \<and> Room b1 = ''general'' \<and> Timestamp b1 = 7 \<and>
     Username b2 = ''Bob'' \<and> Room b2 = ''general'' \<and> Timestamp b2 = 9 \<and>
     b2 = b1\<lparr>Timestamp := 9\<rparr>)"
proof -
  have a: "ex_unmarshal ''forged'' = Some \<lparr>Type = ''join'', Username = ''Admin'',
      Content = ''hi'', Room = ''random'', Timestamp = 42\<rparr>"
    and b: "ex_unmarshal ''plain'' = Some \<lparr>Type = ''join'', Username = [], Content = ''hi'',
      Room = [], Timestamp = 0\<rparr>"
    by (simp_all add: ex_unmarshal_def)
  from readPump_stamps_identity [where unmarshal = ex_unmarshal and ?d1.0 = "''forged''"
      and ?d2.0 = "''plain''" and p = 0 and c = bob and ?t1.0 = 7 and rest = "[]"
      and ?t2.0 = 9, OF a b] a b
  show ?thesis by (simp add: bob_def)
qed

text \<open>
  Claim C5. A frame that does not decode is dropped: the pump goes on with
  the frames that follow as if the frame had not arrived, it has not
  returned after such a frame, and it sends the hub no request for it, so the
  hub's state stays as it is.
\<close>

theorem readPump_decode_error:
  assumes "unmarshal d = None"
  shows "readPump unmarshal p c ((Frame d, now) # rest) = readPump unmarshal p c rest \<and>
         readPump unmarshal p c [(Frame d, now)] = ([], False) \<and>
         Run (map (\<lambda>r. (r, ks)) (fst (readPump unmarshal p c [(Frame d, now)]))) s = Inr s"
  using assms by simp

theorem readPump_decode_error_witness:
  "ex_unmarshal ''garbage'' = None \<and>
   readPump ex_unmarshal 0 bob [(Frame ''garbage'', 5), (Frame ''plain'', 9)] =
     readPump ex_unmarshal 0 bob [(Frame ''plain'', 9)] \<and>
   readPump ex_unmarshal 0 bob [(Frame ''garbage'', 5)] = ([], False) \<and>
   Run (map (\<lambda>r. (r, [0, 1, 2])) (fst (readPump ex_unmarshal 0 bob [(Frame ''garbage'', 5)])))
     ex_state = Inr ex_state"
proof -
  have a: "ex_unmarshal ''garbage'' = None"
    by (simp add: ex_unmarshal_def)
  from readPump_decode_error [where unmarshal = ex_unmarshal and d = "''garbage''" and p = 0
      and c = bob and now = 5 and rest = "[(Frame ''plain'', 9)]" and ks = "[0, 1, 2]"
      and s = ex_state, OF a] a
  show ?thesis by simp
qed

text \<open>
  Claim C10. For a frame that decodes, the message submitted is the decoded
  one with the fields username, room and timestamp set; type and content are
  those of the payload, also a type \<open>join\<close> sent by the client.
\<close>

theorem readPump_passes_type_content:
  assumes "unmarshal d = Some msg"
  shows "readPump unmarshal p c ((Frame d, now) # rest) =
           (Broadcast (msg\<lparr>Username := username c, Room := room c, Timestamp := now\<rparr>)
              # fst (readPump unmarshal p c rest),
            snd (readPump unmarshal p c rest)) \<and>
         Type (msg\<lparr>Username := username c, Room := room c, Timestamp := now\<rparr>) = Type msg \<and>
         Content (msg\<lparr>Username := username c, Room := room c, Timestamp := now\<rparr>) = Content msg"
  using assms by simp

theorem readPump_passes_type_content_witness:
  "ex_unmarshal ''forged'' = Some \<lparr>Type = ''join'', Username = ''Admin'', Content = ''hi'',
      Room = ''random'', Timestamp = 42\<rparr> \<and>
   readPump ex_unmarshal 0 bob [(Frame ''forged'', 7)] =
     ([Broadcast \<lparr>Type = ''join'', Username = ''Bob'', Content = ''hi'', Room = ''general'',
         Timestamp = 7\<rparr>], False)"
proof -
  have a: "ex_unmarshal ''forged'' = Some \<lparr>Type = ''join'', Username = ''Admin'',
      Content = ''hi'', Room = ''random'', Timestamp = 42\<rparr>"
    by (simp add: ex_unmarshal_def)
  from readPump_passes_type_content [where unmarshal = ex_unmarshal and d = "''forged''"
      and p = 0 and c = bob and now = 7 and rest = "[]", OF a] a
  show ?thesis by (simp add: bob_def)
qed

section \<open>Identity defaults\<close>

text \<open>
  Claim C8. After a failed upgrade nothing is created. After a successful one
  the new client has the username \<open>Anonymous\<close> when the query gives none or
  an empty one, and the given username otherwise; the room \<open>general\<close> when
  the query gives none or an empty one, and the given room otherwise; and an
  empty queue of capacity 256.
\<close>

theorem handleWebSocket_identity_defaults:
  "(\<not> upgraded \<longrightarrow> handleWebSocket uq rq upgraded p now s = (s, [])) \<and>
   (upgraded \<longrightarrow>
      (\<exists>cl. mem (fst (handleWebSocket uq rq upgraded p now s)) p = Some cl \<and>
        (uq = [] \<longrightarrow> username cl = ''Anonymous'') \<and> (uq \<noteq> [] \<longrightarrow> username cl = uq) \<and>
        (rq = [] \<longrightarrow> room cl = ''general'') \<and> (rq \<noteq> [] \<longrightarrow> room cl = rq) \<and>
        send cl = make_chan 256))"
  by (simp add: handleWebSocket_def Let_def)

theorem handleWebSocket_identity_defaults_witness:
  "(\<exists>cl. mem (fst (handleWebSocket [] [] True 3 0 ex_state)) 3 = Some cl \<and>
      username cl = ''Anonymous'' \<and> room cl = ''general'') \<and>
   (\<exists>cl. mem (fst (handleWebSocket ''Alice'' ''random'' True 3 0 ex_state)) 3 = Some cl \<and>
      username cl = ''Alice'' \<and> room cl = ''random'')"
proof -
  from handleWebSocket_identity_defaults [of True "[]" "[]" 3 0 ex_state]
  have a: "\<exists>cl. mem (fst (handleWebSocket [] [] True 3 0 ex_state)) 3 = Some cl \<and>
      username cl = ''Anonymous'' \<and> room cl = ''general''"
    by blast
  from handleWebSocket_identity_defaults [of True "''Alice''" "''random''" 3 0 ex_state]
  have b: "\<exists>cl. mem (fst (handleWebSocket ''Alice'' ''random'' True 3 0 ex_state)) 3 = Some cl \<and>
      username cl = ''Alice'' \<and> room cl = ''random''"
    by fastforce
  from a b show ?thesis by blast
qed

section \<open>Accepting a connection\<close>

lemma accept_register:
  "register p (fst (handleWebSocket uq rq True p now s)) =
           Inr (s\<lparr>mem := (mem s)(p \<mapsto> \<lparr>username = (if uq = [] then ''Anonymous'' else uq),
                                        room = (if rq = [] then ''general'' else rq),
                                        send = make_chan 256\<rparr>),
                  clients := (clients s)(p \<mapsto> True)\<rparr>)"
  by (simp add: handleWebSocket_def register_def Let_def)

lemma accept_register_inv:
  assumes "hub_inv s" and "mem s p = None"
    and "register p (fst (handleWebSocket uq rq True p now s)) = Inr s'"
  shows "hub_inv s'"
  using assms(1,2) assms(3) [unfolded accept_register]
  by (auto simp: hub_inv_def make_chan_def)

section \<open>Closing a queue\<close>

lemma writePump_recv_inv: "hub_inv s \<Longrightarrow> hub_inv (writePump_recv p s)"
  by (auto simp: hub_inv_def writePump_recv_def chan_recv_def split: option.splits list.splits)

lemma writePump_recv_clients: "clients (writePump_recv p s) = clients s"
  by (auto simp: writePump_recv_def split: option.splits)

lemma writePump_recv_closed: "is_closed (writePump_recv p s) c = is_closed s c"
  by (auto simp: writePump_recv_def chan_recv_def is_closed_def split: option.splits list.splits)

lemma hub_op_inv: "hub_op s s' \<Longrightarrow> hub_inv s \<Longrightarrow> hub_inv s'"
proof (induction rule: hub_op.induct)
  case (op_register s p uq rq now s')
  then show ?case using accept_register_inv by blast
next
  case (op_unregister c s s')
  then show ?case using unregister_total [of s c] by auto
next
  case (op_broadcast ks s m s')
  then show ?case using broadcast_total [of s m ks] by auto
next
  case (op_recv s p)
  then show ?case by (simp add: writePump_recv_inv)
qed

lemma execution_inv: "execution tr \<Longrightarrow> \<forall>s \<in> set tr. hub_inv s"
proof (induction rule: execution.induct)
  case exec_init
  show ?case by (simp add: hub_inv_def NewHub_def)
next
  case (exec_step s tr s')
  then show ?case using hub_op_inv by auto
qed

lemma broadcast_client_closes:
  "broadcast_client m c s = Inr t \<Longrightarrow> \<not> is_closed s c \<Longrightarrow> is_closed t c \<Longrightarrow>
   clients s c \<noteq> None \<and> clients t c = None"
  by (auto simp: broadcast_client_def chan_send_nb_def chan_close_def is_closed_def
           split: option.splits if_splits sum.splits)

lemma hub_op_closes:
  "hub_op s s' \<Longrightarrow> \<not> is_closed s c \<Longrightarrow> is_closed s' c \<Longrightarrow>
   clients s c \<noteq> None \<and> clients s' c = None"
proof (induction rule: hub_op.induct)
  case (op_register s p uq rq now s')
  then show ?case
    by (auto simp: handleWebSocket_def register_def Let_def is_closed_def make_chan_def
             split: if_splits)
next
  case (op_unregister d s s')
  then show ?case
    by (auto simp: unregister_def chan_close_def is_closed_def
             split: option.splits if_splits)
next
  case (op_broadcast ks s m s')
  show ?case
  proof (cases "c \<in> set ks")
    case True
    from op_broadcast(1) have "distinct ks" by (simp add: range_order_def)
    from broadcast_at [OF this True op_broadcast(2)] obtain t where
      t: "broadcast_client m c s = Inr t" "clients s' c = clients t c" "mem s' c = mem t c"
      by blast
    from t(3) op_broadcast(4) have "is_closed t c" by (simp add: is_closed_def)
    from broadcast_client_closes [OF t(1) op_broadcast(3) this] t(2) show ?thesis by simp
  next
    case False
    from broadcast_frame [OF op_broadcast(2) False] op_broadcast(3,4)
    show ?thesis by (simp add: is_closed_def)
  qed
next
  case (op_recv s p)
  then show ?case by (simp add: writePump_recv_closed)
qed

lemma hub_op_closed_stays:
  assumes "hub_op s s'" and "hub_inv s" and "is_closed s c"
  shows "is_closed s' c \<and> clients s' c = None"
proof -
  from assms(2,3) have absent: "clients s c = None"
    by (auto simp: hub_inv_def is_closed_def split: option.splits)
  from assms(1) assms(3) absent show ?thesis
  proof (induction rule: hub_op.induct)
    case (op_register s p uq rq now s')
    then show ?case
      by (auto simp: handleWebSocket_def register_def Let_def is_closed_def
               split: if_splits option.splits)
  next
    case (op_unregister d s s')
    then show ?case
      by (auto simp: unregister_def chan_close_def is_closed_def
               split: option.splits if_splits)
  next
    case (op_broadcast ks s m s')
    from op_broadcast(1,4) have "c \<notin> set ks" by (auto simp: range_order_def)
    from broadcast_frame [OF op_broadcast(2) this] op_broadcast(3,4)
    show ?case by (simp add: is_closed_def)
  next
    case (op_recv s p)
    then show ?case by (simp add: writePump_recv_closed writePump_recv_clients)
  qed
qed

lemma close_count_execution:
  "execution tr \<Longrightarrow> close_count c tr = (if is_closed (hd tr) c then 1 else 0)"
proof (induction rule: execution.induct)
  case exec_init
  show ?case by (simp add: is_closed_def NewHub_def)
next
  case (exec_step s tr s')
  from exec_step(1) have "hub_inv s" using execution_inv by auto
  from hub_op_closed_stays [OF exec_step(2) this] exec_step(3)
  show ?case by auto
qed

text \<open>
  Claim C9. In every state an execution reaches: every key of the client map
  has an open channel; no hub operation panics (an unregister request for any
  connection, a broadcast of any message in any order, the registration of a
  newly accepted connection), so no closed channel is closed again; a step in
  which the channel of a connection goes from open to closed is a step before
  which the connection is a key of the map and after which it is not; a
  connection whose channel is closed stays closed and is not a key of the map
  after any step; and over the whole execution the channel of a connection is
  closed at most once.
\<close>

theorem close_only_on_removal:
  assumes "execution (s # tr)"
  shows "hub_inv s \<and>
    (\<forall>c. \<exists>s'. unregister c s = Inr s') \<and>
    (\<forall>m ks. \<exists>s'. broadcast m ks s = Inr s') \<and>
    (\<forall>uq rq p now. mem s p = None \<longrightarrow>
       (\<exists>s'. register p (fst (handleWebSocket uq rq True p now s)) = Inr s')) \<and>
    (\<forall>s' c. hub_op s s' \<and> \<not> is_closed s c \<and> is_closed s' c \<longrightarrow>
       clients s c \<noteq> None \<and> clients s' c = None) \<and>
    (\<forall>s' c. hub_op s s' \<and> is_closed s c \<longrightarrow> is_closed s' c \<and> clients s' c = None) \<and>
    (\<forall>c. close_count c (s # tr) \<le> 1)"
proof -
  from assms have inv: "hub_inv s" using execution_inv by auto
  have u: "\<exists>s'. unregister c s = Inr s'" for c
    using unregister_total [OF inv] by blast
  have b: "\<exists>s'. broadcast m ks s = Inr s'" for m ks
    using broadcast_total [OF inv] by blast
  have r: "\<exists>s'. register p (fst (handleWebSocket uq rq True p now s)) = Inr s'"
    if "mem s p = None" for uq rq p now
    using accept_register by simp
  have n: "close_count c (s # tr) \<le> 1" for c
    using close_count_execution [OF assms, of c] by simp
  from inv u b r n hub_op_closes hub_op_closed_stays [OF _ inv] show ?thesis
    by blast
qed

theorem close_only_on_removal_witness:
  "\<exists>s1 s2. execution [s2, s1, NewHub Map.empty] \<and> hub_inv s2 \<and>
     hub_op s1 s2 \<and> \<not> is_closed s1 0 \<and> is_closed s2 0 \<and>
     clients s1 0 = Some True \<and> clients s2 0 = None \<and>
     unregister 0 s2 = Inr s2 \<and>
     close_count 0 [s2, s1, NewHub Map.empty] \<le> 1"
proof -
  define s1 where "s1 = \<lparr>clients = [0 \<mapsto> True],
      mem = [0 \<mapsto> \<lparr>username = ''Alice'', room = ''general'', send = make_chan 256\<rparr>]\<rparr>"
  define s2 where "s2 = \<lparr>clients = Map.empty,
      mem = [0 \<mapsto> \<lparr>username = ''Alice'', room = ''general'',
                     send = (make_chan 256)\<lparr>chan_closed := True\<rparr>\<rparr>]\<rparr>"
  have "register 0 (fst (handleWebSocket ''Alice'' ''general'' True 0 0 (NewHub Map.empty))) = Inr s1"
    by (simp add: handleWebSocket_def Let_def register_def NewHub_def s1_def)
  then have op1: "hub_op (NewHub Map.empty) s1"
    by (rule op_register [rotated]) (simp add: NewHub_def)
  have u: "unregister 0 s1 = Inr s2"
    by (simp add: unregister_def chan_close_def s1_def s2_def make_chan_def)
  then have op2: "hub_op s1 s2" by (rule op_unregister)
  from exec_step [OF exec_init op1]
  have e1: "execution [s1, NewHub Map.empty]" .
  from exec_step [OF e1 op2]
  have e2: "execution [s2, s1, NewHub Map.empty]" .
  have c: "\<not> is_closed s1 0" "is_closed s2 0" "clients s1 0 = Some True"
    by (simp_all add: is_closed_def s1_def s2_def make_chan_def)
  from close_only_on_removal [OF e1] op2 c(1,2)
  have gone: "clients s2 0 = None" by blast
  from close_only_on_removal [OF e2]
  have inv: "hub_inv s2" and n: "close_count 0 [s2, s1, NewHub Map.empty] \<le> 1"
    by blast+
  from gone have "unregister 0 s2 = Inr s2"
    by (rule unregister_absent)
  with e2 inv op2 c gone n show ?thesis by blast
qed

section \<open>Joining\<close>

text \<open>
  Claim C7 as stated does not hold: a member of the room whose queue is full
  does not get the join message. Alice joins room \<open>general\<close> while Erin, a
  member of \<open>general\<close>, has a full queue: \<open>handleWebSocket\<close> creates Alice's
  client and sends the register request and then the join message; the hub,
  handling both, evicts Erin, whose queue holds what it held before.
\<close>

theorem handleWebSocket_join_counterexample:
  "clients ex_state 2 = Some True \<and> mem ex_state 2 = Some erin \<and> room erin = ''general'' \<and>
   handleWebSocket ''Alice'' ''general'' True 3 0 ex_state =
     (ex_accepted, [Register 3, Broadcast join_alice]) \<and>
   Run [(Register 3, []), (Broadcast join_alice, [0, 1, 2, 3])] ex_accepted = Inr ex_joined \<and>
   clients ex_joined 2 = None \<and>
   mem ex_joined 2 = Some (erin\<lparr>send := (send erin)\<lparr>chan_closed := True\<rparr>\<rparr>) \<and>
   join_alice \<notin> set (chan_buf (send erin))"
proof -
  have a: "handleWebSocket ''Alice'' ''general'' True 3 0 ex_state =
     (ex_accepted, [Register 3, Broadcast join_alice])"
    by (simp add: handleWebSocket_def Let_def ex_state_def ex_accepted_def join_alice_def)
  have b: "Run [(Register 3, []), (Broadcast join_alice, [0, 1, 2, 3])] ex_accepted = Inr ex_joined"
    by (simp add: ex_accepted_def ex_joined_def register_def broadcast_client_def
        chan_send_nb_def chan_close_def bob_def dave_def erin_def make_chan_def join_alice_def
        hello_def fun_eq_iff)
  have c: "join_alice \<notin> set (chan_buf (send erin))"
    by (simp add: erin_def join_alice_def hello_def make_chan_def)
  from a b c show ?thesis
    by (simp add: ex_state_def ex_joined_def erin_def)
qed

text \<open>
  No step of the program changes the username or the room of a client object.
\<close>

lemma broadcast_client_identity:
  "broadcast_client m k s = Inr s' \<Longrightarrow> mem s c = Some cl \<Longrightarrow>
   \<exists>cl'. mem s' c = Some cl' \<and> username cl' = username cl \<and> room cl' = room cl"
  by (auto simp: broadcast_client_def chan_send_nb_def chan_close_def
           split: option.splits if_splits sum.splits)

lemma broadcast_identity:
  "broadcast m ks s = Inr s' \<Longrightarrow> mem s c = Some cl \<Longrightarrow>
   \<exists>cl'. mem s' c = Some cl' \<and> username cl' = username cl \<and> room cl' = room cl"
proof (induction ks arbitrary: s cl)
  case Nil
  then show ?case by simp
next
  case (Cons k ks)
  from Cons.prems(1) obtain s1 where s1: "broadcast_client m k s = Inr s1"
    and rest: "broadcast m ks s1 = Inr s'"
    by (auto split: sum.splits)
  from broadcast_client_identity [OF s1 Cons.prems(2)] obtain cl1 where
    cl1: "mem s1 c = Some cl1" "username cl1 = username cl" "room cl1 = room cl"
    by blast
  from Cons.IH [OF rest cl1(1)] cl1(2,3) show ?case by auto
qed

lemma hub_op_identity:
  "hub_op s s' \<Longrightarrow> mem s c = Some cl \<Longrightarrow>
   \<exists>cl'. mem s' c = Some cl' \<and> username cl' = username cl \<and> room cl' = room cl"
proof (induction rule: hub_op.induct)
  case (op_register s p uq rq now s')
  then show ?case
    by (auto simp: handleWebSocket_def register_def Let_def split: if_splits)
next
  case (op_unregister d s s')
  then show ?case
    by (auto simp: unregister_def chan_close_def split: option.splits if_splits)
next
  case (op_broadcast ks s m s')
  from broadcast_identity [OF op_broadcast(2,3)] show ?case .
next
  case (op_recv s p)
  then show ?case
    by (auto simp: writePump_recv_def chan_recv_def split: option.splits list.splits)
qed

lemma hub_ops_inv: "rtranclp hub_op s s' \<Longrightarrow> hub_inv s \<Longrightarrow> hub_inv s'"
  by (induction rule: rtranclp_induct) (auto intro: hub_op_inv)

lemma hub_ops_identity:
  "rtranclp hub_op s s' \<Longrightarrow> mem s c = Some cl \<Longrightarrow>
   \<exists>cl'. mem s' c = Some cl' \<and> username cl' = username cl \<and> room cl' = room cl"
proof (induction rule: rtranclp_induct)
  case base
  then show ?case by simp
next
  case (step y z)
  from step.IH [OF step.prems] obtain cl1 where
    cl1: "mem y c = Some cl1" "username cl1 = username cl" "room cl1 = room cl"
    by blast
  from hub_op_identity [OF step.hyps(2) cl1(1)] cl1(2,3) show ?case by auto
qed

text \<open>
  An execution for the examples: Bob is connected; Alice is accepted at
  address 3; then, any number of times up to 256, a message for room
  \<open>general\<close> is broadcast and Bob's write pump receives it from his queue,
  while Alice's queue keeps it.
\<close>

lemma execution_ex_bob: "execution [ex_bob, NewHub Map.empty]"
proof -
  have "register 0 (fst (handleWebSocket ''Bob'' ''general'' True 0 0 (NewHub Map.empty))) = Inr ex_bob"
    by (simp add: handleWebSocket_def Let_def register_def NewHub_def ex_bob_def bob_def)
  then have "hub_op (NewHub Map.empty) ex_bob"
    by (rule op_register [rotated]) (simp add: NewHub_def)
  from exec_step [OF exec_init this] show ?thesis .
qed

lemma accept_alice:
  "register 3 (fst (handleWebSocket ''Alice'' ''general'' True 3 0 ex_bob)) = Inr (ex_between 0)"
  by (simp add: handleWebSocket_def Let_def register_def ex_bob_def ex_between_def
      make_chan_def fun_eq_iff)

lemma range_order_ex_between: "range_order [3, 0] (ex_between n)"
  by (auto simp: range_order_def ex_between_def split: if_splits)

lemma ex_between_round:
  assumes "n < 256"
  shows "rtranclp hub_op (ex_between n) (ex_between (Suc n))"
proof -
  define t where "t =
     \<lparr>clients = [0 \<mapsto> True, 3 \<mapsto> True],
      mem = [0 \<mapsto> bob\<lparr>send := (make_chan 256)\<lparr>chan_buf := [hello]\<rparr>\<rparr>,
             3 \<mapsto> \<lparr>username = ''Alice'', room = ''general'',
                   send = (make_chan 256)\<lparr>chan_buf := replicate (Suc n) hello\<rparr>\<rparr>]\<rparr>"
  from assms have "broadcast hello [3, 0] (ex_between n) = Inr t"
    by (simp add: ex_between_def t_def broadcast_client_def chan_send_nb_def bob_def
        make_chan_def hello_def replicate_append_same fun_eq_iff)
  with range_order_ex_between have a: "hub_op (ex_between n) t"
    by (rule op_broadcast)
  have "writePump_recv 0 t = ex_between (Suc n)"
    by (simp add: writePump_recv_def chan_recv_def t_def ex_between_def bob_def make_chan_def
        fun_eq_iff)
  with op_recv [of t 0] have b: "hub_op t (ex_between (Suc n))" by simp
  from a b show ?thesis by (meson rtranclp.rtrancl_into_rtrancl rtranclp.rtrancl_refl)
qed

lemma ex_between_rounds: "n \<le> 256 \<Longrightarrow> rtranclp hub_op (ex_between 0) (ex_between n)"
proof (induction n)
  case 0
  show ?case by simp
next
  case (Suc n)
  then have "rtranclp hub_op (ex_between 0) (ex_between n)" by simp
  moreover from Suc.prems have "rtranclp hub_op (ex_between n) (ex_between (Suc n))"
    by (simp add: ex_between_round)
  ultimately show ?case by (rule rtranclp_trans)
qed

text \<open>
  Claim C7, amended. In every state an execution reaches, \<open>handleWebSocket\<close>
  on a successful upgrade, with the resolved identity \<open>u\<close>, \<open>r\<close>, sends the
  hub the register request for the new connection and then a message of type
  \<open>join\<close> with room \<open>r\<close>, username \<open>u\<close> and content \<open>u\<close> followed by
  \<open>joined the room\<close>. The register request makes the connection, with its
  empty queue of capacity 256, a key of the map. The two requests are separate
  sends and the connection's pumps start only after the second: whatever steps
  the program takes in between, the broadcast of the join message, in any
  order of the map, returns, and every connection that is then a key of the
  map, of room \<open>r\<close>, with a queue that is not full, stays a key and has the
  join message appended to its queue. The joining connection is one of them
  as long as it is still a key and its queue is not full; when no step comes
  in between, it is a key and its queue holds exactly the join message.
\<close>

theorem handleWebSocket_join:
  assumes "execution (s # tr)" and "mem s p = None"
    and "u = (if uq = [] then ''Anonymous'' else uq)"
    and "r = (if rq = [] then ''general'' else rq)"
    and "join = \<lparr>Type = ''join'', Username = u, Content = u @ '' joined the room'',
                  Room = r, Timestamp = now\<rparr>"
  shows "\<exists>s1 s2.
     handleWebSocket uq rq True p now s = (s1, [Register p, Broadcast join]) \<and>
     register p s1 = Inr s2 \<and>
     clients s2 p = Some True \<and>
     mem s2 p = Some \<lparr>username = u, room = r, send = make_chan 256\<rparr> \<and>
     (\<forall>s3 ks. rtranclp hub_op s2 s3 \<and> range_order ks s3 \<longrightarrow>
        (\<exists>s4. broadcast join ks s3 = Inr s4 \<and>
           (\<forall>c cl. clients s3 c \<noteq> None \<and> mem s3 c = Some cl \<and> room cl = r \<and>
                   length (chan_buf (send cl)) < chan_cap (send cl) \<longrightarrow>
              clients s4 c = clients s3 c \<and>
              mem s4 c = Some (cl\<lparr>send := (send cl)\<lparr>chan_buf := chan_buf (send cl) @ [join]\<rparr>\<rparr>)) \<and>
           (\<forall>cl. clients s3 p \<noteq> None \<and> mem s3 p = Some cl \<and>
                 length (chan_buf (send cl)) < chan_cap (send cl) \<longrightarrow>
              username cl = u \<and> room cl = r \<and> clients s4 p = clients s3 p \<and>
              mem s4 p = Some (cl\<lparr>send := (send cl)\<lparr>chan_buf := chan_buf (send cl) @ [join]\<rparr>\<rparr>)) \<and>
           (s3 = s2 \<longrightarrow>
              clients s4 p = Some True \<and>
              mem s4 p = Some \<lparr>username = u, room = r,
                               send = (make_chan 256)\<lparr>chan_buf := [join]\<rparr>\<rparr>)))"
proof -
  define new where "new = \<lparr>username = u, room = r, send = make_chan 256\<rparr>"
  define s1 where "s1 = s\<lparr>mem := (mem s)(p \<mapsto> new)\<rparr>"
  define s2 where "s2 = s\<lparr>mem := (mem s)(p \<mapsto> new), clients := (clients s)(p \<mapsto> True)\<rparr>"
  from assms(1) have inv: "hub_inv s" using execution_inv by auto
  have h: "handleWebSocket uq rq True p now s = (s1, [Register p, Broadcast join])"
    by (simp add: handleWebSocket_def Let_def s1_def new_def assms(3,4,5))
  have reg: "register p s1 = Inr s2"
    by (simp add: register_def s1_def s2_def)
  with h have "register p (fst (handleWebSocket uq rq True p now s)) = Inr s2" by simp
  from accept_register_inv [OF inv assms(2) this] have inv2: "hub_inv s2" .
  have at2: "clients s2 p = Some True" "mem s2 p = Some new"
    by (simp_all add: s2_def)
  have later: "\<exists>s4. broadcast join ks s3 = Inr s4 \<and>
      (\<forall>c cl. clients s3 c \<noteq> None \<and> mem s3 c = Some cl \<and> room cl = r \<and>
              length (chan_buf (send cl)) < chan_cap (send cl) \<longrightarrow>
         clients s4 c = clients s3 c \<and>
         mem s4 c = Some (cl\<lparr>send := (send cl)\<lparr>chan_buf := chan_buf (send cl) @ [join]\<rparr>\<rparr>)) \<and>
      (\<forall>cl. clients s3 p \<noteq> None \<and> mem s3 p = Some cl \<and>
            length (chan_buf (send cl)) < chan_cap (send cl) \<longrightarrow>
         username cl = u \<and> room cl = r \<and> clients s4 p = clients s3 p \<and>
         mem s4 p = Some (cl\<lparr>send := (send cl)\<lparr>chan_buf := chan_buf (send cl) @ [join]\<rparr>\<rparr>)) \<and>
      (s3 = s2 \<longrightarrow>
         clients s4 p = Some True \<and>
         mem s4 p = Some \<lparr>username = u, room = r,
                          send = (make_chan 256)\<lparr>chan_buf := [join]\<rparr>\<rparr>)"
    if steps: "rtranclp hub_op s2 s3" and ro: "range_order ks s3" for s3 ks
  proof -
    from hub_ops_inv [OF steps inv2] have inv3: "hub_inv s3" .
    from inv3 obtain s4 where s4: "broadcast join ks s3 = Inr s4"
      using broadcast_total by blast
    have rm: "Room join = r" by (simp add: assms(5))
    have members: "clients s4 c = clients s3 c \<and>
        mem s4 c = Some (cl\<lparr>send := (send cl)\<lparr>chan_buf := chan_buf (send cl) @ [join]\<rparr>\<rparr>)"
      if "clients s3 c \<noteq> None" "mem s3 c = Some cl" "room cl = r"
        "length (chan_buf (send cl)) < chan_cap (send cl)" for c cl
      by (rule broadcast_member_sent [OF inv3 ro s4]) (simp_all add: that rm)
    have joiner: "username cl = u \<and> room cl = r \<and> clients s4 p = clients s3 p \<and>
        mem s4 p = Some (cl\<lparr>send := (send cl)\<lparr>chan_buf := chan_buf (send cl) @ [join]\<rparr>\<rparr>)"
      if j: "clients s3 p \<noteq> None" "mem s3 p = Some cl"
        "length (chan_buf (send cl)) < chan_cap (send cl)" for cl
    proof -
      from hub_ops_identity [OF steps at2(2)] j(2)
      have id: "username cl = u" "room cl = r" by (simp_all add: new_def)
      from members [OF j(1,2) id(2) j(3)] id show ?thesis by simp
    qed
    have direct: "clients s4 p = Some True \<and>
        mem s4 p = Some \<lparr>username = u, room = r, send = (make_chan 256)\<lparr>chan_buf := [join]\<rparr>\<rparr>"
      if "s3 = s2"
      using members [of p new] at2 that by (simp add: new_def make_chan_def)
    from s4 members joiner direct show ?thesis by blast
  qed
  from h reg at2 later show ?thesis unfolding new_def by blast
qed

theorem handleWebSocket_join_witness:
  "execution [ex_bob, NewHub Map.empty] \<and> mem ex_bob 3 = None \<and>
   register 3 (fst (handleWebSocket ''Alice'' ''general'' True 3 0 ex_bob)) = Inr (ex_between 0) \<and>
   rtranclp hub_op (ex_between 0) (ex_between 1) \<and> range_order [3, 0] (ex_between 1) \<and>
   (\<exists>s4. broadcast join_alice [3, 0] (ex_between 1) = Inr s4 \<and>
      clients s4 3 = Some True \<and>
      mem s4 3 = Some \<lparr>username = ''Alice'', room = ''general'',
                        send = (make_chan 256)\<lparr>chan_buf := [hello, join_alice]\<rparr>\<rparr> \<and>
      clients s4 0 = Some True \<and>
      mem s4 0 = Some (bob\<lparr>send := (make_chan 256)\<lparr>chan_buf := [join_alice]\<rparr>\<rparr>))"
proof -
  have fresh: "mem ex_bob 3 = None" by (simp add: ex_bob_def)
  have u: "''Alice'' = (if ''Alice'' = [] then ''Anonymous'' else ''Alice'')"
    and r: "''general'' = (if ''general'' = [] then ''general'' else ''general'')"
    by simp_all
  have j: "join_alice = \<lparr>Type = ''join'', Username = ''Alice'',
      Content = ''Alice'' @ '' joined the room'', Room = ''general'', Timestamp = 0\<rparr>"
    by (simp add: join_alice_def)
  have steps: "rtranclp hub_op (ex_between 0) (ex_between 1)"
    by (rule ex_between_rounds) simp
  from handleWebSocket_join [OF execution_ex_bob fresh u r j]
  obtain s1 s2 where h: "handleWebSocket ''Alice'' ''general'' True 3 0 ex_bob =
        (s1, [Register 3, Broadcast join_alice])"
    and reg: "register 3 s1 = Inr s2"
    and all: "\<forall>s3 ks. rtranclp hub_op s2 s3 \<and> range_order ks s3 \<longrightarrow>
      (\<exists>s4. broadcast join_alice ks s3 = Inr s4 \<and>
        (\<forall>c cl. clients s3 c \<noteq> None \<and> mem s3 c = Some cl \<and> room cl = ''general'' \<and>
                length (chan_buf (send cl)) < chan_cap (send cl) \<longrightarrow>
           clients s4 c = clients s3 c \<and>
           mem s4 c = Some (cl\<lparr>send := (send cl)\<lparr>chan_buf := chan_buf (send cl) @ [join_alice]\<rparr>\<rparr>)) \<and>
        (\<forall>cl. clients s3 3 \<noteq> None \<and> mem s3 3 = Some cl \<and>
              length (chan_buf (send cl)) < chan_cap (send cl) \<longrightarrow>
           username cl = ''Alice'' \<and> room cl = ''general'' \<and> clients s4 3 = clients s3 3 \<and>
           mem s4 3 = Some (cl\<lparr>send := (send cl)\<lparr>chan_buf := chan_buf (send cl) @ [join_alice]\<rparr>\<rparr>)) \<and>
        (s3 = s2 \<longrightarrow>
           clients s4 3 = Some True \<and>
           mem s4 3 = Some \<lparr>username = ''Alice'', room = ''general'',
                             send = (make_chan 256)\<lparr>chan_buf := [join_alice]\<rparr>\<rparr>))"
    apply (elim exE conjE)
    apply (rule that)
      apply assumption+
    done
  from h reg accept_alice have s2: "s2 = ex_between 0" by simp
  from all have "rtranclp hub_op s2 (ex_between 1) \<and> range_order [3, 0] (ex_between 1) \<longrightarrow>
      (\<exists>s4. broadcast join_alice [3, 0] (ex_between 1) = Inr s4 \<and>
        (\<forall>c cl. clients (ex_between 1) c \<noteq> None \<and> mem (ex_between 1) c = Some cl \<and>
                room cl = ''general'' \<and>
                length (chan_buf (send cl)) < chan_cap (send cl) \<longrightarrow>
           clients s4 c = clients (ex_between 1) c \<and>
           mem s4 c = Some (cl\<lparr>send := (send cl)\<lparr>chan_buf := chan_buf (send cl) @ [join_alice]\<rparr>\<rparr>)))"
    by (elim allE [where x = "ex_between 1"] allE [where x = "[3, 0]"]) blast
  with s2 steps range_order_ex_between
  obtain s4 where s4: "broadcast join_alice [3, 0] (ex_between 1) = Inr s4"
    and members: "\<And>c cl. clients (ex_between 1) c \<noteq> None \<Longrightarrow> mem (ex_between 1) c = Some cl \<Longrightarrow>
        room cl = ''general'' \<Longrightarrow> length (chan_buf (send cl)) < chan_cap (send cl) \<Longrightarrow>
        clients s4 c = clients (ex_between 1) c \<and>
        mem s4 c = Some (cl\<lparr>send := (send cl)\<lparr>chan_buf := chan_buf (send cl) @ [join_alice]\<rparr>\<rparr>)"
    by blast
  from members [of 3 "\<lparr>username = ''Alice'', room = ''general'',
      send = (make_chan 256)\<lparr>chan_buf := replicate 1 hello\<rparr>\<rparr>"]
  have alice: "clients s4 3 = Some True \<and>
      mem s4 3 = Some \<lparr>username = ''Alice'', room = ''general'',
                        send = (make_chan 256)\<lparr>chan_buf := [hello, join_alice]\<rparr>\<rparr>"
    by (simp add: ex_between_def make_chan_def)
  from members [of 0 bob]
  have "clients s4 0 = Some True \<and>
      mem s4 0 = Some (bob\<lparr>send := (make_chan 256)\<lparr>chan_buf := [join_alice]\<rparr>\<rparr>)"
    by (simp add: ex_between_def bob_def make_chan_def)
  with execution_ex_bob fresh accept_alice steps range_order_ex_between s4 alice
  show ?thesis by blast
qed

text \<open>
  The condition on the joining connection cannot be dropped: when 256
  messages for its room are broadcast between its registration and its join
  message, the join broadcast finds its queue full and evicts it, and the
  join message never reaches its queue.
\<close>

lemma join_lost_when_queue_filled:
  "execution [ex_bob, NewHub Map.empty] \<and> mem ex_bob 3 = None \<and>
   register 3 (fst (handleWebSocket ''Alice'' ''general'' True 3 0 ex_bob)) = Inr (ex_between 0) \<and>
   snd (handleWebSocket ''Alice'' ''general'' True 3 0 ex_bob) = [Register 3, Broadcast join_alice] \<and>
   rtranclp hub_op (ex_between 0) (ex_between 256) \<and>
   range_order [3, 0] (ex_between 256) \<and>
   broadcast join_alice [3, 0] (ex_between 256) = Inr ex_lost \<and>
   clients ex_lost 3 = None \<and>
   mem ex_lost 3 = Some \<lparr>username = ''Alice'', room = ''general'',
                          send = (make_chan 256)\<lparr>chan_buf := replicate 256 hello,
                                                   chan_closed := True\<rparr>\<rparr> \<and>
   join_alice \<notin> set (replicate 256 hello)"
proof -
  have a: "mem ex_bob 3 = None" by (simp add: ex_bob_def)
  have b: "snd (handleWebSocket ''Alice'' ''general'' True 3 0 ex_bob) =
      [Register 3, Broadcast join_alice]"
    by (simp add: handleWebSocket_def Let_def join_alice_def)
  have c: "rtranclp hub_op (ex_between 0) (ex_between 256)"
    by (rule ex_between_rounds) simp
  have d: "broadcast join_alice [3, 0] (ex_between 256) = Inr ex_lost"
    by (simp add: ex_between_def ex_lost_def broadcast_client_def chan_send_nb_def
        chan_close_def bob_def make_chan_def join_alice_def fun_eq_iff)
  have e: "join_alice \<notin> set (replicate 256 hello)"
    by (simp add: join_alice_def hello_def)
  from execution_ex_bob a accept_alice b c range_order_ex_between d e show ?thesis
    by (simp add: ex_lost_def)
qed

end
